theory Spec2Isabelle
  imports Main "HOL-Library.Multiset" "HOL-Library.Char_ord" "HOL-Library.List_Lexorder"
begin

section \<open>Frontmatter values and the collection schema\<close>

text \<open>
  The blog's content collection is declared in \<^verbatim>\<open>src/content/config.ts\<close>:
  \<^verbatim>\<open>
  const blog = defineCollection({
    type: 'content',
    schema: z.object({
      title: z.string(),
      description: z.string(),
      pubDate: z.date(),
      updatedDate: z.date().optional(),
      heroImage: z.string().optional(),
      tags: z.array(z.string()).optional(),
    }),
  });
  \<close>
  A frontmatter block is a YAML mapping; after parsing, each key holds a JavaScript
  value, and a key that is not written is \<^verbatim>\<open>undefined\<close> (\<open>None\<close> below). A date such
  as \<^verbatim>\<open>pubDate: 2025-10-09\<close> arrives as a \<^verbatim>\<open>Date\<close> object, whose time value is a number of
  milliseconds since the epoch, or NaN for an invalid date (\<open>JDate None\<close>).
\<close>

datatype js_value =
    JNull
  | JBool bool
  | JNumber int
  | JString string
  | JDate "int option"
  | JArray "js_value list"
  | JObject "(string \<times> js_value) list"

type_synonym frontmatter = "string \<Rightarrow> js_value option"

text \<open>The types the schema library distinguishes when it reports a mismatch.\<close>

datatype zod_parsed_type =
    Zundefined | Znull | Zboolean | Znumber | Zstring | Zdate | Zarray | Zobject

fun getParsedType :: "js_value option \<Rightarrow> zod_parsed_type" where
  "getParsedType None = Zundefined"
| "getParsedType (Some JNull) = Znull"
| "getParsedType (Some (JBool b)) = Zboolean"
| "getParsedType (Some (JNumber n)) = Znumber"
| "getParsedType (Some (JString s)) = Zstring"
| "getParsedType (Some (JDate d)) = Zdate"
| "getParsedType (Some (JArray xs)) = Zarray"
| "getParsedType (Some (JObject kvs)) = Zobject"

text \<open>
  An issue names the place of the offending value (the key, and for an array element
  its index) and says what was expected: \<open>invalid_type expected received\<close>, where a
  missing required key is received as \<open>Zundefined\<close>, or \<open>invalid_date\<close> for a \<^verbatim>\<open>Date\<close>
  whose time value is NaN.
\<close>

datatype path_seg = Key string | Index nat

datatype zod_issue_code = invalid_type zod_parsed_type zod_parsed_type | invalid_date

datatype zod_issue = Issue "path_seg list" zod_issue_code


text \<open>\<^verbatim>\<open>z.string()\<close>: any string, the empty one included (there is no \<^verbatim>\<open>.min(1)\<close>).\<close>

fun z_string :: "path_seg list \<Rightarrow> js_value option \<Rightarrow> zod_issue list + string" where
  "z_string p (Some (JString s)) = Inr s"
| "z_string p v = Inl [Issue p (invalid_type Zstring (getParsedType v))]"

text \<open>\<^verbatim>\<open>z.date()\<close>: a \<^verbatim>\<open>Date\<close> object with a time value; no coercion from strings.\<close>

fun z_date :: "path_seg list \<Rightarrow> js_value option \<Rightarrow> zod_issue list + int" where
  "z_date p (Some (JDate (Some t))) = Inr t"
| "z_date p (Some (JDate None)) = Inl [Issue p invalid_date]"
| "z_date p v = Inl [Issue p (invalid_type Zdate (getParsedType v))]"

text \<open>\<^verbatim>\<open>.optional()\<close>: \<^verbatim>\<open>undefined\<close> passes and stays \<^verbatim>\<open>undefined\<close>; no default is put in.\<close>

fun z_optional ::
  "(path_seg list \<Rightarrow> js_value option \<Rightarrow> zod_issue list + 'a) \<Rightarrow>
   path_seg list \<Rightarrow> js_value option \<Rightarrow> zod_issue list + 'a option" where
  "z_optional inner p None = Inr None"
| "z_optional inner p (Some v) =
     (case inner p (Some v) of Inl iss \<Rightarrow> Inl iss | Inr x \<Rightarrow> Inr (Some x))"

text \<open>
  \<^verbatim>\<open>z.array(z.string())\<close>: every element is checked, at the path of the array extended
  by its index, and the issues of all elements are collected.
\<close>

fun z_items :: "path_seg list \<Rightarrow> nat \<Rightarrow> js_value list \<Rightarrow> zod_issue list + string list" where
  "z_items p i [] = Inr []"
| "z_items p i (x # xs) =
     (case (z_string (p @ [Index i]) (Some x), z_items p (Suc i) xs) of
        (Inr s, Inr ss) \<Rightarrow> Inr (s # ss)
      | (Inl e, Inr ss) \<Rightarrow> Inl e
      | (Inr s, Inl es) \<Rightarrow> Inl es
      | (Inl e, Inl es) \<Rightarrow> Inl (e @ es))"

fun z_array_string :: "path_seg list \<Rightarrow> js_value option \<Rightarrow> zod_issue list + string list" where
  "z_array_string p (Some (JArray xs)) = z_items p 0 xs"
| "z_array_string p v = Inl [Issue p (invalid_type Zarray (getParsedType v))]"

text \<open>The typed data of an entry: \<^verbatim>\<open>CollectionEntry<'blog'>['data']\<close>.\<close>

record blog_data =
  title :: string
  description :: string
  pubDate :: int
  updatedDate :: "int option"
  heroImage :: "string option"
  tags :: "string list option"

fun issues_of :: "zod_issue list + 'a \<Rightarrow> zod_issue list" where
  "issues_of (Inl iss) = iss"
| "issues_of (Inr x) = []"

text \<open>
  \<^verbatim>\<open>z.object({...})\<close>: every key of the shape is checked, in the order written; keys
  the shape does not name are dropped; the result is the typed object when no key
  raised an issue, and otherwise all the issues.
\<close>

definition schema :: "frontmatter \<Rightarrow> zod_issue list + blog_data" where
  "schema fm =
     (let r1 = z_string [Key ''title''] (fm ''title'');
          r2 = z_string [Key ''description''] (fm ''description'');
          r3 = z_date [Key ''pubDate''] (fm ''pubDate'');
          r4 = z_optional z_date [Key ''updatedDate''] (fm ''updatedDate'');
          r5 = z_optional z_string [Key ''heroImage''] (fm ''heroImage'');
          r6 = z_optional z_array_string [Key ''tags''] (fm ''tags'')
      in case (r1, r2, r3, r4, r5, r6) of
           (Inr t, Inr d, Inr p, Inr u, Inr h, Inr g) \<Rightarrow>
             Inr \<lparr>title = t, description = d, pubDate = p,
                  updatedDate = u, heroImage = h, tags = g\<rparr>
         | _ \<Rightarrow>
             Inl (issues_of r1 @ issues_of r2 @ issues_of r3 @
                  issues_of r4 @ issues_of r5 @ issues_of r6))"

section \<open>Entries, and the views the pages take of the collection\<close>

text \<open>
  An entry as \<^verbatim>\<open>getCollection('blog')\<close> hands it to a page: the file it came from, the
  slug the framework gave it, the validated data and the Markdown body.
\<close>

record entry =
  entry_id :: string
  slug :: string
  data :: blog_data
  body :: string

text \<open>
  The comparator both listing pages pass to \<^verbatim>\<open>sort\<close>:
  \<^verbatim>\<open>(a, b) => b.data.pubDate.valueOf() - a.data.pubDate.valueOf()\<close>.
  The dates passed \<^verbatim>\<open>z.date()\<close>, so both time values are integers and the sign of the
  difference is the sign of the exact difference.
\<close>

definition compareFn :: "entry \<Rightarrow> entry \<Rightarrow> int" where
  "compareFn a b = pubDate (data b) - pubDate (data a)"

text \<open>
  \<^verbatim>\<open>Array.prototype.sort(comparefn)\<close> is a stable sort: \<open>a\<close> ends before \<open>b\<close> when
  \<open>comparefn a b < 0\<close>, and elements that compare equal keep their order. For a
  consistent comparator this fixes the result, computed here by insertion.
\<close>

fun sort_insert :: "('a \<Rightarrow> 'a \<Rightarrow> int) \<Rightarrow> 'a \<Rightarrow> 'a list \<Rightarrow> 'a list" where
  "sort_insert cmp x [] = [x]"
| "sort_insert cmp x (y # ys) =
     (if cmp x y \<le> 0 then x # y # ys else y # sort_insert cmp x ys)"

fun Array_sort :: "('a \<Rightarrow> 'a \<Rightarrow> int) \<Rightarrow> 'a list \<Rightarrow> 'a list" where
  "Array_sort cmp [] = []"
| "Array_sort cmp (x # xs) = sort_insert cmp x (Array_sort cmp xs)"


text \<open>
  The contents of \<^verbatim>\<open>sortedPosts\<close> in \<^verbatim>\<open>src/pages/blog/index.astro\<close>
  (\<^verbatim>\<open>posts.sort(...)\<close>) and in \<^verbatim>\<open>src/pages/index.astro\<close> (\<^verbatim>\<open>posts.sort(...).slice(0, 3)\<close>).
\<close>

definition sortedPosts :: "entry list \<Rightarrow> entry list" where
  "sortedPosts posts = Array_sort compareFn posts"


text \<open>
  \<^verbatim>\<open>getStaticPaths\<close> of \<^verbatim>\<open>src/pages/blog/[...slug].astro\<close>:
  \<^verbatim>\<open>posts.map((post) => ({ params: { slug: post.slug }, props: post }))\<close>.
  The page file stands at \<^verbatim>\<open>pages/blog/[...slug].astro\<close>, so the route of a returned
  path is \<^verbatim>\<open>/blog/<slug>/\<close>, the address the listing pages link to.
\<close>

record static_path =
  params_slug :: string
  props :: entry

definition getStaticPaths :: "entry list \<Rightarrow> static_path list" where
  "getStaticPaths posts = map (\<lambda>post. \<lparr>params_slug = slug post, props = post\<rparr>) posts"

definition route_path :: "static_path \<Rightarrow> string" where
  "route_path sp = ''/blog/'' @ params_slug sp @ ''/''"

subsection \<open>The array the pages hold\<close>








section \<open>Rendering\<close>

text \<open>
  A rendered page is a tree of elements. The \<^verbatim>\<open><style>\<close> blocks of the templates are
  constant text and are left out. What the platform supplies is a parameter: the
  generator string, the three date formats the templates call, and the rendering of
  a Markdown body.
\<close>

datatype html = Element string "(string \<times> string) list" "html list" | TextNode string

text \<open>The text of a page, in the order of the document.\<close>

fun text_nodes :: "html \<Rightarrow> string list" where
  "text_nodes (TextNode t) = [t]"
| "text_nodes (Element name attrs children) = concat (map text_nodes children)"

record platform =
  generator :: string
  toISOString :: "int \<Rightarrow> string"
  toLocaleDateString :: "int \<Rightarrow> string"
  toLocaleDateString_long :: "int \<Rightarrow> string"
  render :: "string \<Rightarrow> html list"

text \<open>
  \<^verbatim>\<open>src/layouts/BaseLayout.astro\<close>, with
  \<^verbatim>\<open>const { title, description = "My awesome blog powered by Astro" } = Astro.props;\<close>
\<close>

definition BaseLayout :: "platform \<Rightarrow> string \<Rightarrow> string option \<Rightarrow> html list \<Rightarrow> html" where
  "BaseLayout pf ttl desc slot =
     Element ''html'' [(''lang'', ''en'')]
       [Element ''head'' []
          [Element ''meta'' [(''charset'', ''utf-8'')] [],
           Element ''link''
             [(''rel'', ''icon''), (''type'', ''image/svg+xml''), (''href'', ''/favicon.svg'')] [],
           Element ''meta'' [(''name'', ''viewport''), (''content'', ''width=device-width'')] [],
           Element ''meta'' [(''name'', ''generator''), (''content'', generator pf)] [],
           Element ''meta''
             [(''name'', ''description''),
              (''content'',
               (case desc of None \<Rightarrow> ''My awesome blog powered by Astro'' | Some d \<Rightarrow> d))] [],
           Element ''title'' [] [TextNode ttl]],
        Element ''body'' []
          [Element ''header'' []
             [Element ''nav'' []
                [Element ''a'' [(''href'', ''/''), (''class'', ''logo'')] [TextNode ''My Blog''],
                 Element ''div'' [(''class'', ''nav-links'')]
                   [Element ''a'' [(''href'', ''/'')] [TextNode ''Home''],
                    Element ''a'' [(''href'', ''/blog'')] [TextNode ''Blog'']]]],
           Element ''main'' [] slot,
           Element ''footer'' []
             [Element ''p'' [] [TextNode ''&copy; 2025 My Blog. Built with Astro.'']]]]"

definition tag_span :: "string \<Rightarrow> html" where
  "tag_span tag = Element ''span'' [(''class'', ''tag'')] [TextNode tag]"

text \<open>
  One item of the listing in \<^verbatim>\<open>src/pages/blog/index.astro\<close>. The tag list is guarded by
  \<^verbatim>\<open>post.data.tags && (...)\<close>: it is rendered for every array, the empty one included,
  and not for \<^verbatim>\<open>undefined\<close>.
\<close>

definition post_item :: "platform \<Rightarrow> entry \<Rightarrow> html" where
  "post_item pf post =
     Element ''article'' [(''class'', ''post-item'')]
       [Element ''a'' [(''href'', ''/blog/'' @ slug post @ ''/'')]
          [Element ''h2'' [] [TextNode (title (data post))],
           Element ''p'' [] [TextNode (description (data post))],
           Element ''div'' [(''class'', ''post-meta'')]
             (Element ''time'' [] [TextNode (toLocaleDateString pf (pubDate (data post)))] #
              (case tags (data post) of
                 None \<Rightarrow> []
               | Some ts \<Rightarrow> [Element ''div'' [(''class'', ''tags'')] (map tag_span ts)]))]]"

text \<open>
  The body of \<^verbatim>\<open>src/pages/blog/index.astro\<close>: the heading, then
  \<^verbatim>\<open>{sortedPosts.length > 0 ? (<div class="posts-list">...</div>)
                           : (<p>No posts published yet.</p>)}\<close>
\<close>

definition blog_index_slot :: "platform \<Rightarrow> entry list \<Rightarrow> html list" where
  "blog_index_slot pf sortedPosts' =
     [Element ''h1'' [] [TextNode ''All Blog Posts''],
      (if length sortedPosts' > 0
       then Element ''div'' [(''class'', ''posts-list'')] (map (post_item pf) sortedPosts')
       else Element ''p'' [] [TextNode ''No posts published yet.''])]"

definition blog_index_page :: "platform \<Rightarrow> entry list \<Rightarrow> html" where
  "blog_index_page pf posts =
     BaseLayout pf ''All Blog Posts'' None (blog_index_slot pf (sortedPosts posts))"



section \<open>The \<^verbatim>\<open>blog new-post\<close> script\<close>

text \<open>
  \<^verbatim>\<open>flake.nix\<close> installs a shell script \<^verbatim>\<open>blog\<close>; its \<^verbatim>\<open>new-post\<close> branch derives the
  slug of the new post from its title, the second argument, and from the slug the
  name of the file it then writes:
  \<^verbatim>\<open>
  slug=$(echo "$2" | tr '[:upper:]' '[:lower:]' | sed 's/[^a-z0-9]/-/g'
         | sed 's/--*/-/g' | sed 's/^-\|-$//g')
  file="src/content/blog/$slug.md"
  \<close>
  Text is a string of bytes and the tools run in the C locale: a letter is an ASCII
  letter, and every byte is a character of its own.
\<close>

abbreviation NL :: char where "NL \<equiv> CHR 0x0A"

abbreviation hyphen :: char where "hyphen \<equiv> CHR ''-''"

subsection \<open>\<^verbatim>\<open>echo\<close>, \<^verbatim>\<open>tr\<close> and command substitution\<close>

text \<open>
  The shell's \<^verbatim>\<open>echo\<close> prints its argument and a newline, unless the argument is an
  option: a hyphen followed by one or more of the letters \<^verbatim>\<open>n\<close>, \<^verbatim>\<open>e\<close>, \<^verbatim>\<open>E\<close>. Then
  nothing of it is printed, and \<^verbatim>\<open>n\<close> also drops the newline.
\<close>

definition echo_option :: "string \<Rightarrow> bool" where
  "echo_option a =
     (case a of
        c # d # ds \<Rightarrow>
          c = hyphen \<and> list_all (\<lambda>x. x = CHR ''n'' \<or> x = CHR ''e'' \<or> x = CHR ''E'') (d # ds)
      | _ \<Rightarrow> False)"

definition echo :: "string \<Rightarrow> string" where
  "echo a =
     (if echo_option a then (if CHR ''n'' \<in> set a then [] else [NL]) else a @ [NL])"

text \<open>\<^verbatim>\<open>tr '[:upper:]' '[:lower:]'\<close> maps each of \<^verbatim>\<open>A\<close> to \<^verbatim>\<open>Z\<close> to its lower-case letter.\<close>

definition to_lower :: "char \<Rightarrow> char" where
  "to_lower c =
     (if 65 \<le> (of_char c :: nat) \<and> (of_char c :: nat) \<le> 90
      then char_of (of_char c + 32 :: nat) else c)"

definition tr_upper_lower :: "string \<Rightarrow> string" where
  "tr_upper_lower txt = map to_lower txt"

text \<open>\<^verbatim>\<open>$(...)\<close> gives the output of the pipeline without its trailing newlines.\<close>

definition command_subst :: "string \<Rightarrow> string" where
  "command_subst out = rev (dropWhile (\<lambda>c. c = NL) (rev out))"

subsection \<open>\<^verbatim>\<open>sed 's/regex/replacement/g'\<close>\<close>

text \<open>
  The regular expressions of the script use a literal character, a bracket expression
  that excludes ranges (\<^verbatim>\<open>[^a-z0-9]\<close>), the star on a one-character atom, concatenation,
  the alternation \<^verbatim>\<open>\|\<close>, and the anchors \<^verbatim>\<open>^\<close> and \<^verbatim>\<open>$\<close>.
\<close>

datatype atom = Lit char | NoneOf "(char \<times> char) list"

datatype bre = Atom atom | Star atom | Seq bre bre | Alt bre bre | Bol | Eol

definition in_range :: "char \<Rightarrow> char \<Rightarrow> char \<Rightarrow> bool" where
  "in_range lo hi c = ((of_char lo :: nat) \<le> of_char c \<and> (of_char c :: nat) \<le> of_char hi)"

fun atom_ok :: "atom \<Rightarrow> char \<Rightarrow> bool" where
  "atom_ok (Lit c) x = (x = c)"
| "atom_ok (NoneOf rs) x = (\<not> list_ex (\<lambda>(lo, hi). in_range lo hi x) rs)"

text \<open>
  \<open>match_lens r bol s\<close> lists the lengths of the prefixes of \<open>s\<close> that \<open>r\<close> matches,
  where \<open>s\<close> is the rest of the line and \<open>bol\<close> says whether it starts the line.
\<close>

fun match_lens :: "bre \<Rightarrow> bool \<Rightarrow> string \<Rightarrow> nat list" where
  "match_lens (Atom a) bol s =
     (case s of [] \<Rightarrow> [] | c # cs \<Rightarrow> if atom_ok a c then [1] else [])"
| "match_lens (Star a) bol s = upt 0 (Suc (length (takeWhile (atom_ok a) s)))"
| "match_lens (Seq r1 r2) bol s =
     concat (map (\<lambda>n. map (\<lambda>m. n + m) (match_lens r2 (bol \<and> n = 0) (drop n s)))
                 (match_lens r1 bol s))"
| "match_lens (Alt r1 r2) bol s = match_lens r1 bol s @ match_lens r2 bol s"
| "match_lens Bol bol s = (if bol then [0] else [])"
| "match_lens Eol bol s = (if s = [] then [0] else [])"

fun longest :: "nat list \<Rightarrow> nat option" where
  "longest [] = None"
| "longest (n # ns) = Some (fold max ns n)"

text \<open>
  The substitution with the \<^verbatim>\<open>g\<close> flag, on one line: at each position the longest
  match is replaced and the scan goes on behind it; where nothing matches, the
  character is copied. An empty match is replaced too, unless it touches the match
  before it (\<open>adj\<close>).
\<close>

function gsub :: "bre \<Rightarrow> string \<Rightarrow> bool \<Rightarrow> bool \<Rightarrow> string \<Rightarrow> string" where
  "gsub r rep bol adj [] =
     (if longest (match_lens r bol []) = Some 0 \<and> \<not> adj then rep else [])"
| "gsub r rep bol adj (c # cs) =
     (case longest (match_lens r bol (c # cs)) of
        None \<Rightarrow> c # gsub r rep False False cs
      | Some 0 \<Rightarrow>
          (if adj then c # gsub r rep False False cs
           else rep @ c # gsub r rep False False cs)
      | Some (Suc n) \<Rightarrow> rep @ gsub r rep False True (drop n cs))"
  by pat_completeness auto
termination
  by (relation "measure (\<lambda>(r, rep, bol, adj, s). length s)") auto

text \<open>
  \<^verbatim>\<open>sed\<close> reads its input line by line: the command is applied to each line without
  its newline, and the newline is written back. A last line without a newline is
  processed as well.
\<close>

fun per_line :: "(string \<Rightarrow> string) \<Rightarrow> string \<Rightarrow> string \<Rightarrow> string" where
  "per_line f line [] = (if line = [] then [] else f line)"
| "per_line f line (c # cs) =
     (if c = NL then f line @ NL # per_line f [] cs else per_line f (line @ [c]) cs)"

definition sed_s :: "bre \<Rightarrow> string \<Rightarrow> string \<Rightarrow> string" where
  "sed_s r rep txt = per_line (gsub r rep True False) [] txt"

text \<open>The three expressions: \<^verbatim>\<open>[^a-z0-9]\<close>, \<^verbatim>\<open>--*\<close> and \<^verbatim>\<open>^-\|-$\<close>.\<close>

definition re_not_alnum :: bre where
  "re_not_alnum = Atom (NoneOf [(CHR ''a'', CHR ''z''), (CHR ''0'', CHR ''9'')])"

definition re_hyphens :: bre where
  "re_hyphens = Seq (Atom (Lit hyphen)) (Star (Lit hyphen))"

definition re_edge_hyphen :: bre where
  "re_edge_hyphen = Alt (Seq Bol (Atom (Lit hyphen))) (Seq (Atom (Lit hyphen)) Eol)"

subsection \<open>The script\<close>

definition new_post_slug :: "string \<Rightarrow> string" where
  "new_post_slug arg2 =
     command_subst
       (sed_s re_edge_hyphen []
         (sed_s re_hyphens ''-''
           (sed_s re_not_alnum ''-''
             (tr_upper_lower (echo arg2)))))"

definition new_post_file :: "string \<Rightarrow> string" where
  "new_post_file sl = ''src/content/blog/'' @ sl @ ''.md''"

subsection \<open>The rule as the specification words it\<close>

text \<open>
  The specification derives a slug from a file name: the name without its extension,
  lowercased, with disallowed characters normalized to a separator (the hyphen),
  collapsing repeated separators and trimming leading and trailing separators. This
  is that wording, written down independently of the script, to compare the two.
\<close>

definition strip_extension :: "string \<Rightarrow> string" where
  "strip_extension name =
     (if CHR ''.'' \<in> set name
      then rev (tl (dropWhile (\<lambda>c. c \<noteq> CHR ''.'') (rev name)))
      else name)"

definition allowed :: "char \<Rightarrow> bool" where
  "allowed c = (in_range (CHR ''a'') (CHR ''z'') c \<or> in_range (CHR ''0'') (CHR ''9'') c)"

definition replace_disallowed :: "string \<Rightarrow> string" where
  "replace_disallowed s = map (\<lambda>c. if allowed c then c else hyphen) s"

fun collapse_hyphens :: "string \<Rightarrow> string" where
  "collapse_hyphens (c # d # cs) =
     (if c = hyphen \<and> d = hyphen then collapse_hyphens (d # cs)
      else c # collapse_hyphens (d # cs))"
| "collapse_hyphens cs = cs"

definition trim_hyphens :: "string \<Rightarrow> string" where
  "trim_hyphens s =
     rev (dropWhile (\<lambda>c. c = hyphen) (rev (dropWhile (\<lambda>c. c = hyphen) s)))"

definition slug_rule :: "string \<Rightarrow> string" where
  "slug_rule s = trim_hyphens (collapse_hyphens (replace_disallowed (map to_lower s)))"

definition spec_slug :: "string \<Rightarrow> string" where
  "spec_slug filename = slug_rule (strip_extension filename)"

section \<open>The build, as far as the specification describes it\<close>

text \<open>
  Modelled from the spec: the loader that finds the files, reads them, validates every
  entry against the schema and hands the collection to the pages is the framework's
  and is not among the sources. Its input is a directory of Markdown files. A file is
  given by its name and by what reading its frontmatter block gives: the mapping and
  the body, or nothing when the block is malformed. The specification has three
  failures, each fatal to the build: a \<open>ParseError\<close> for a malformed block, a
  \<open>SlugCollisionError\<close> for two files of one slug, naming both, and a
  \<open>ValidationError\<close> for an entry that violates the schema, naming the offending
  fields.
\<close>

record source_file =
  file_name :: string
  parsed :: "(frontmatter \<times> string) option"

datatype build_error =
    ParseError string
  | SlugCollisionError string string
  | ValidationError string "zod_issue list"


text \<open>
  Modelled from the spec: the collision check of the loader. The slug of a file is
  derived from its name by the rule above, so a collision is a matter of the names
  alone and is found when the files are discovered, before any of them is read. The
  names are taken in order; the first name whose slug an earlier name has already
  taken fails the build, with the first of those earlier names and this one.
\<close>

fun slug_collision :: "string list \<Rightarrow> string list \<Rightarrow> (string \<times> string) option" where
  "slug_collision seen [] = None"
| "slug_collision seen (n # ns) =
     (case find (\<lambda>m. spec_slug m = spec_slug n) seen of
        Some m \<Rightarrow> Some (m, n)
      | None \<Rightarrow> slug_collision (seen @ [n]) ns)"

text \<open>
  Modelled from the spec: reading the files. Each file gives a raw (slug, frontmatter,
  body) triple, with the name of its file; the first malformed block ends the pass.
\<close>

record raw_entry =
  raw_id :: string
  raw_slug :: string
  raw_frontmatter :: frontmatter
  raw_body :: string

fun read_files :: "source_file list \<Rightarrow> build_error + raw_entry list" where
  "read_files [] = Inr []"
| "read_files (f # fs) =
     (case parsed f of
        None \<Rightarrow> Inl (ParseError (file_name f))
      | Some (fm, b) \<Rightarrow>
          (case read_files fs of
             Inl e \<Rightarrow> Inl e
           | Inr rs \<Rightarrow>
               Inr (\<lparr>raw_id = file_name f, raw_slug = spec_slug (file_name f),
                     raw_frontmatter = fm, raw_body = b\<rparr> # rs)))"

text \<open>
  Modelled from the spec: the validation pass. The raw entries are taken in order, each
  is checked against the schema of the sources (\<open>schema\<close> above), and the pass fails
  fast: the first entry that violates the schema ends it with the error of that entry.
\<close>

fun validate_entries :: "raw_entry list \<Rightarrow> build_error + entry list" where
  "validate_entries [] = Inr []"
| "validate_entries (r # rs) =
     (case schema (raw_frontmatter r) of
        Inl iss \<Rightarrow> Inl (ValidationError (raw_id r) iss)
      | Inr d \<Rightarrow>
          (case validate_entries rs of
             Inl e \<Rightarrow> Inl e
           | Inr es \<Rightarrow>
               Inr (\<lparr>entry_id = raw_id r, slug = raw_slug r, data = d, body = raw_body r\<rparr> # es)))"

text \<open>
  Modelled from the spec: the loader, in the order of the data flow: discovery with
  the collision check, reading, validation. What it returns is the Collection: its
  slugs are unique and every member has passed the schema.
\<close>

definition load_collection :: "source_file list \<Rightarrow> build_error + entry list" where
  "load_collection files =
     (case slug_collision [] (map file_name files) of
        Some (a, b) \<Rightarrow> Inl (SlugCollisionError a b)
      | None \<Rightarrow>
          (case read_files files of
             Inl e \<Rightarrow> Inl e
           | Inr raws \<Rightarrow> validate_entries raws))"



section \<open>Orders and examples used in the statements\<close>

text \<open>
  The order the specification asks of the listing: publish date descending, and for
  entries with the same publish date, slug ascending (strings compared character by
  character).
\<close>

definition date_desc_slug_asc :: "entry \<Rightarrow> entry \<Rightarrow> bool" where
  "date_desc_slug_asc a b =
     (pubDate (data b) < pubDate (data a) \<or>
      (pubDate (data a) = pubDate (data b) \<and> slug a \<le> slug b))"

text \<open>
  A post with a given slug and publish date, for examples. The dates used are
  2025-01-15, 2025-09-15 and 2025-09-26, at midnight UTC, in milliseconds since the
  epoch.
\<close>

definition post_at :: "string \<Rightarrow> int \<Rightarrow> entry" where
  "post_at sl d =
     \<lparr>entry_id = sl @ ''.md'', slug = sl,
      data = \<lparr>title = sl, description = [], pubDate = d,
              updatedDate = None, heroImage = None, tags = None\<rparr>,
      body = []\<rparr>"

abbreviation date_2025_01_15 :: int where "date_2025_01_15 \<equiv> 1736899200000"

abbreviation date_2025_09_15 :: int where "date_2025_09_15 \<equiv> 1757894400000"

abbreviation date_2025_09_26 :: int where "date_2025_09_26 \<equiv> 1758844800000"

text \<open>What a frontmatter key holds, as the schema tells it apart.\<close>

fun is_string :: "js_value option \<Rightarrow> bool" where
  "is_string (Some (JString s)) = True"
| "is_string v = False"

fun is_valid_date :: "js_value option \<Rightarrow> bool" where
  "is_valid_date (Some (JDate (Some t))) = True"
| "is_valid_date v = False"

fun is_string_array :: "js_value option \<Rightarrow> bool" where
  "is_string_array (Some (JArray xs)) = list_all (\<lambda>x. is_string (Some x)) xs"
| "is_string_array v = False"





text \<open>
  The shape of a slug: only lower-case letters, digits and hyphens, no two hyphens
  next to each other, and no hyphen at either end.
\<close>

fun adjacent_hyphens :: "string \<Rightarrow> bool" where
  "adjacent_hyphens (c # d # cs) = ((c = hyphen \<and> d = hyphen) \<or> adjacent_hyphens (d # cs))"
| "adjacent_hyphens cs = False"

definition slug_shaped :: "string \<Rightarrow> bool" where
  "slug_shaped s =
     (list_all (\<lambda>c. allowed c \<or> c = hyphen) s \<and> \<not> adjacent_hyphens s \<and>
      (s = [] \<or> (hd s \<noteq> hyphen \<and> last s \<noteq> hyphen)))"

text \<open>The name of a file: what follows the last slash of its path.\<close>

definition basename :: "string \<Rightarrow> string" where
  "basename path = rev (takeWhile (\<lambda>c. c \<noteq> CHR ''/'') (rev path))"

section \<open>Properties\<close>

subsection \<open>Detail routes\<close>

text \<open>
  C1. The route generator produces exactly one detail route per entry, in the order of
  the entries and with none skipped: there are as many routes as entries, the route of
  each entry has the path \<^verbatim>\<open>/blog/<slug>/\<close>, and it is bound to that entry.
\<close>

theorem detail_routes_one_per_entry:
  "length (getStaticPaths posts) = length posts \<and>
   map route_path (getStaticPaths posts) = map (\<lambda>post. ''/blog/'' @ slug post @ ''/'') posts \<and>
   map props (getStaticPaths posts) = posts"
  by (induction posts) (simp_all add: getStaticPaths_def route_path_def)

subsection \<open>The empty collection\<close>

text \<open>
  C8. With no entries, the listing page is rendered (rendering has no failing branch)
  and the message \<^verbatim>\<open>No posts published yet.\<close> is on the page: the text of the page is
  that of the layout and, in its main part, the heading and the message, with no post.
  The main part of the page holds the heading and the paragraph with the message, and
  no list of posts. No detail route is generated.
\<close>

theorem empty_collection_listing:
  "''No posts published yet.'' \<in> set (text_nodes (blog_index_page pf [])) \<and>
   text_nodes (blog_index_page pf []) =
     [''All Blog Posts'', ''My Blog'', ''Home'', ''Blog'', ''All Blog Posts'',
      ''No posts published yet.'', ''&copy; 2025 My Blog. Built with Astro.''] \<and>
   blog_index_page pf [] =
     Element ''html'' [(''lang'', ''en'')]
       [Element ''head'' []
          [Element ''meta'' [(''charset'', ''utf-8'')] [],
           Element ''link''
             [(''rel'', ''icon''), (''type'', ''image/svg+xml''), (''href'', ''/favicon.svg'')] [],
           Element ''meta'' [(''name'', ''viewport''), (''content'', ''width=device-width'')] [],
           Element ''meta'' [(''name'', ''generator''), (''content'', generator pf)] [],
           Element ''meta''
             [(''name'', ''description''), (''content'', ''My awesome blog powered by Astro'')] [],
           Element ''title'' [] [TextNode ''All Blog Posts'']],
        Element ''body'' []
          [Element ''header'' []
             [Element ''nav'' []
                [Element ''a'' [(''href'', ''/''), (''class'', ''logo'')] [TextNode ''My Blog''],
                 Element ''div'' [(''class'', ''nav-links'')]
                   [Element ''a'' [(''href'', ''/'')] [TextNode ''Home''],
                    Element ''a'' [(''href'', ''/blog'')] [TextNode ''Blog'']]]],
           Element ''main'' []
             [Element ''h1'' [] [TextNode ''All Blog Posts''],
              Element ''p'' [] [TextNode ''No posts published yet.'']],
           Element ''footer'' []
             [Element ''p'' [] [TextNode ''&copy; 2025 My Blog. Built with Astro.'']]]] \<and>
   getStaticPaths [] = []"
  by (simp add: blog_index_page_def blog_index_slot_def sortedPosts_def getStaticPaths_def
      BaseLayout_def)

subsection \<open>The order of the listing\<close>

lemma sort_insert_insort_key:
  "sort_insert compareFn x ys = insort_key (\<lambda>p. - pubDate (data p)) x ys"
  by (induction ys) (auto simp: compareFn_def)

lemma Array_sort_sort_key:
  "Array_sort compareFn xs = sort_key (\<lambda>p. - pubDate (data p)) xs"
  by (induction xs) (auto simp: sort_insert_insort_key)

lemma Array_sort_mset: "mset (Array_sort compareFn xs) = mset xs"
  by (simp add: Array_sort_sort_key)

lemma Array_sort_date_desc:
  "sorted_wrt (\<lambda>a b. pubDate (data b) \<le> pubDate (data a)) (Array_sort compareFn xs)"
proof -
  have "sorted (map (\<lambda>p. - pubDate (data p)) (Array_sort compareFn xs))"
    unfolding Array_sort_sort_key by (rule sorted_sort_key)
  then show ?thesis
    by (simp add: sorted_map)
qed

lemma Array_sort_stable:
  "filter (\<lambda>p. pubDate (data p) = d) (Array_sort compareFn xs) =
   filter (\<lambda>p. pubDate (data p) = d) xs"
proof -
  have "filter (\<lambda>p. - pubDate (data p) = - d) (sort_key (\<lambda>p. - pubDate (data p)) xs) =
        filter (\<lambda>p. - pubDate (data p) = - d) xs"
    by (rule sort_key_stable)
  then show ?thesis
    by (simp add: Array_sort_sort_key)
qed

text \<open>
  C2, as the claim states it, fails: two entries published on the same day, which the
  collection holds in the order \<^verbatim>\<open>b\<close>, \<^verbatim>\<open>a\<close>, stay in that order in the listing, so
  the listing is not in the order "date descending, then slug ascending".
\<close>

theorem listing_ties_not_by_slug:
  "\<not> sorted_wrt date_desc_slug_asc
        (sortedPosts [post_at ''b'' date_2025_09_26, post_at ''a'' date_2025_09_26])"
  by (simp add: sortedPosts_def compareFn_def date_desc_slug_asc_def post_at_def)

text \<open>
  C2, amended. The listing is sorted by publish date descending and holds the entries
  of the collection; entries that share a publish date keep the order the collection
  had them in (the comparator looks at the date only, and the sort is stable). Of two
  entries with different dates, the later one comes first, whichever way the
  collection had them.
\<close>

theorem listing_date_desc_stable:
  "sorted_wrt (\<lambda>a b. pubDate (data b) \<le> pubDate (data a)) (sortedPosts posts) \<and>
   mset (sortedPosts posts) = mset posts \<and>
   (\<forall>d. filter (\<lambda>p. pubDate (data p) = d) (sortedPosts posts) =
        filter (\<lambda>p. pubDate (data p) = d) posts) \<and>
   (pubDate (data b) < pubDate (data a) \<longrightarrow>
      sortedPosts [a, b] = [a, b] \<and> sortedPosts [b, a] = [a, b])"
  unfolding sortedPosts_def
  by (simp add: Array_sort_mset Array_sort_date_desc Array_sort_stable compareFn_def)

text \<open>
  C2, an instance: the entries dated 2025-09-26 and 2025-09-15. The first appears
  before the second.
\<close>

theorem listing_date_desc_stable_witness:
  "pubDate (data (post_at ''old'' date_2025_09_15)) <
     pubDate (data (post_at ''new'' date_2025_09_26)) \<and>
   sortedPosts [post_at ''old'' date_2025_09_15, post_at ''new'' date_2025_09_26] =
     [post_at ''new'' date_2025_09_26, post_at ''old'' date_2025_09_15] \<and>
   sortedPosts [post_at ''new'' date_2025_09_26, post_at ''old'' date_2025_09_15] =
     [post_at ''new'' date_2025_09_26, post_at ''old'' date_2025_09_15]"
  using listing_date_desc_stable
    [of "[post_at ''old'' date_2025_09_15, post_at ''new'' date_2025_09_26]"
        "post_at ''old'' date_2025_09_15" "post_at ''new'' date_2025_09_26"]
  by (simp add: post_at_def)

subsection \<open>What the schema accepts\<close>

lemma z_string_Inr: "z_string p v = Inr s \<longleftrightarrow> v = Some (JString s)"
  by (cases "(p, v)" rule: z_string.cases) auto

lemma z_date_Inr: "z_date p v = Inr t \<longleftrightarrow> v = Some (JDate (Some t))"
  by (cases "(p, v)" rule: z_date.cases) auto

lemma z_items_Inr_D: "z_items p i xs = Inr ss \<Longrightarrow> xs = map JString ss"
proof (induction xs arbitrary: i ss)
  case Nil
  then show ?case by simp
next
  case (Cons x xs)
  from Cons.prems obtain s ss' where
    s: "z_string (p @ [Index i]) (Some x) = Inr s" and
    ss': "z_items p (Suc i) xs = Inr ss'" and ss: "ss = s # ss'"
    by (auto split: sum.splits)
  from s have "x = JString s" by (simp add: z_string_Inr)
  moreover from Cons.IH[OF ss'] have "xs = map JString ss'" .
  ultimately show ?case using ss by simp
qed

lemma z_items_strings: "z_items p i (map JString ss) = Inr ss"
  by (induction ss arbitrary: i) simp_all

lemma z_items_Inr: "z_items p i xs = Inr ss \<longleftrightarrow> xs = map JString ss"
  using z_items_Inr_D z_items_strings by blast

lemma z_array_string_Inr:
  "z_array_string p v = Inr ss \<longleftrightarrow> v = Some (JArray (map JString ss))"
  by (cases "(p, v)" rule: z_array_string.cases) (auto simp: z_items_Inr)

lemma z_optional_Inr:
  "z_optional inner p v = Inr r \<longleftrightarrow>
     (v = None \<and> r = None) \<or> (\<exists>x. v \<noteq> None \<and> inner p v = Inr x \<and> r = Some x)"
  by (cases v) (auto split: sum.splits)

lemma schema_Inr:
  "schema fm = Inr d \<longleftrightarrow>
     z_string [Key ''title''] (fm ''title'') = Inr (title d) \<and>
     z_string [Key ''description''] (fm ''description'') = Inr (description d) \<and>
     z_date [Key ''pubDate''] (fm ''pubDate'') = Inr (pubDate d) \<and>
     z_optional z_date [Key ''updatedDate''] (fm ''updatedDate'') = Inr (updatedDate d) \<and>
     z_optional z_string [Key ''heroImage''] (fm ''heroImage'') = Inr (heroImage d) \<and>
     z_optional z_array_string [Key ''tags''] (fm ''tags'') = Inr (tags d)"
  unfolding schema_def Let_def
  by (cases d) (auto split: sum.splits)


lemma is_string_iff: "is_string v \<longleftrightarrow> (\<exists>s. v = Some (JString s))"
  by (cases v rule: is_string.cases) auto

lemma is_valid_date_iff: "is_valid_date v \<longleftrightarrow> (\<exists>t. v = Some (JDate (Some t)))"
  by (cases v rule: is_valid_date.cases) auto

lemma all_strings_iff:
  "list_all (\<lambda>x. is_string (Some x)) xs \<longleftrightarrow> (\<exists>ss. xs = map JString ss)"
  by (induction xs) (auto simp: is_string_iff Cons_eq_map_conv)

lemma is_string_array_iff:
  "is_string_array v \<longleftrightarrow> (\<exists>ss. v = Some (JArray (map JString ss)))"
  by (cases v rule: is_string_array.cases) (auto simp: all_strings_iff)

lemma schema_Inr_exact:
  "schema fm = Inr d \<longleftrightarrow>
     fm ''title'' = Some (JString (title d)) \<and>
     fm ''description'' = Some (JString (description d)) \<and>
     fm ''pubDate'' = Some (JDate (Some (pubDate d))) \<and>
     fm ''updatedDate'' = map_option (\<lambda>t. JDate (Some t)) (updatedDate d) \<and>
     fm ''heroImage'' = map_option JString (heroImage d) \<and>
     fm ''tags'' = map_option (\<lambda>ts. JArray (map JString ts)) (tags d)"
  unfolding schema_Inr z_string_Inr z_date_Inr z_optional_Inr z_array_string_Inr
  by (cases "updatedDate d"; cases "heroImage d"; cases "tags d") auto

lemma schema_accepts_iff:
  "(\<exists>d. schema fm = Inr d) \<longleftrightarrow>
     is_string (fm ''title'') \<and> is_string (fm ''description'') \<and>
     is_valid_date (fm ''pubDate'') \<and>
     (fm ''updatedDate'' = None \<or> is_valid_date (fm ''updatedDate'')) \<and>
     (fm ''heroImage'' = None \<or> is_string (fm ''heroImage'')) \<and>
     (fm ''tags'' = None \<or> is_string_array (fm ''tags''))"
  (is "?L \<longleftrightarrow> ?R")
proof
  assume ?L
  then obtain d where "schema fm = Inr d" ..
  then show ?R
    unfolding schema_Inr_exact is_string_iff is_valid_date_iff is_string_array_iff
    by (cases "updatedDate d"; cases "heroImage d"; cases "tags d") auto
next
  assume r: ?R
  then obtain t ds p where req:
    "fm ''title'' = Some (JString t)" "fm ''description'' = Some (JString ds)"
    "fm ''pubDate'' = Some (JDate (Some p))"
    by (auto simp: is_string_iff is_valid_date_iff)
  from r obtain u where u: "fm ''updatedDate'' = map_option (\<lambda>t. JDate (Some t)) u"
    by (auto simp: is_valid_date_iff intro: that[of None] that[of "Some _"])
  from r obtain h where h: "fm ''heroImage'' = map_option JString h"
    by (auto simp: is_string_iff intro: that[of None] that[of "Some _"])
  from r obtain g where g: "fm ''tags'' = map_option (\<lambda>ts. JArray (map JString ts)) g"
    by (auto simp: is_string_array_iff intro: that[of None] that[of "Some _"])
  have "schema fm = Inr \<lparr>title = t, description = ds, pubDate = p,
                         updatedDate = u, heroImage = h, tags = g\<rparr>"
    using req u h g by (simp add: schema_Inr_exact)
  then show ?L ..
qed

text \<open>
  C3, as the claim states it, fails in three ways. A frontmatter whose title is the
  empty string is accepted, and the entry it gives has no tags at all (\<^verbatim>\<open>undefined\<close>)
  rather than an empty collection of tags. A frontmatter whose three required fields
  are as the claim asks, and whose \<^verbatim>\<open>tags\<close> is a string and not a list, is rejected.
\<close>

theorem schema_empty_title_accepted:
  "schema [''title'' \<mapsto> JString [], ''description'' \<mapsto> JString ''d'',
           ''pubDate'' \<mapsto> JDate (Some date_2025_01_15)] =
     Inr \<lparr>title = [], description = ''d'', pubDate = date_2025_01_15,
          updatedDate = None, heroImage = None, tags = None\<rparr> \<and>
   schema [''title'' \<mapsto> JString ''t'', ''description'' \<mapsto> JString ''d'',
           ''pubDate'' \<mapsto> JDate (Some date_2025_01_15), ''tags'' \<mapsto> JString ''astro''] =
     Inl [Issue [Key ''tags''] (invalid_type Zarray Zstring)]"
  by (simp add: schema_def)

text \<open>
  C3, amended. The schema returns a typed entry exactly when \<^verbatim>\<open>title\<close> is a string (the
  empty string included), \<^verbatim>\<open>description\<close> is a string, \<^verbatim>\<open>pubDate\<close> is a valid date, and
  each of \<^verbatim>\<open>updatedDate\<close>, \<^verbatim>\<open>heroImage\<close> and \<^verbatim>\<open>tags\<close> is either missing or, in turn, a
  valid date, a string, a list of strings. The entry holds the values of the
  frontmatter; an optional field that is missing is absent in the entry
  (\<^verbatim>\<open>updatedDate\<close>, \<^verbatim>\<open>heroImage\<close> and \<^verbatim>\<open>tags\<close> alike: no default is put in).
\<close>

theorem schema_accepts:
  "((\<exists>d'. schema fm = Inr d') \<longleftrightarrow>
      is_string (fm ''title'') \<and> is_string (fm ''description'') \<and>
      is_valid_date (fm ''pubDate'') \<and>
      (fm ''updatedDate'' = None \<or> is_valid_date (fm ''updatedDate'')) \<and>
      (fm ''heroImage'' = None \<or> is_string (fm ''heroImage'')) \<and>
      (fm ''tags'' = None \<or> is_string_array (fm ''tags''))) \<and>
   (schema fm = Inr d \<longleftrightarrow>
      fm ''title'' = Some (JString (title d)) \<and>
      fm ''description'' = Some (JString (description d)) \<and>
      fm ''pubDate'' = Some (JDate (Some (pubDate d))) \<and>
      fm ''updatedDate'' = map_option (\<lambda>t. JDate (Some t)) (updatedDate d) \<and>
      fm ''heroImage'' = map_option JString (heroImage d) \<and>
      fm ''tags'' = map_option (\<lambda>ts. JArray (map JString ts)) (tags d)) \<and>
   (schema fm = Inr d \<and> fm ''updatedDate'' = None \<and> fm ''heroImage'' = None \<and>
    fm ''tags'' = None \<longrightarrow>
      updatedDate d = None \<and> heroImage d = None \<and> tags d = None)"
proof -
  have "updatedDate d = None \<and> heroImage d = None \<and> tags d = None"
    if "schema fm = Inr d" "fm ''updatedDate'' = None" "fm ''heroImage'' = None"
       "fm ''tags'' = None"
    using that by (simp add: schema_Inr_exact)
  then show ?thesis
    using schema_accepts_iff[of fm] schema_Inr_exact[of fm d] by blast
qed

text \<open>
  C3, an instance: the frontmatter \<^verbatim>\<open>blog new-post\<close> writes has the three required
  keys only; the entry has no update date, no hero image and no tags.
\<close>

theorem schema_accepts_witness:
  "[''title'' \<mapsto> JString ''My First Blog Post'',
    ''description'' \<mapsto> JString ''Description for My First Blog Post'',
    ''pubDate'' \<mapsto> JDate (Some date_2025_01_15)] ''updatedDate'' = None \<and>
   [''title'' \<mapsto> JString ''My First Blog Post'',
    ''description'' \<mapsto> JString ''Description for My First Blog Post'',
    ''pubDate'' \<mapsto> JDate (Some date_2025_01_15)] ''heroImage'' = None \<and>
   [''title'' \<mapsto> JString ''My First Blog Post'',
    ''description'' \<mapsto> JString ''Description for My First Blog Post'',
    ''pubDate'' \<mapsto> JDate (Some date_2025_01_15)] ''tags'' = None \<and>
   schema [''title'' \<mapsto> JString ''My First Blog Post'',
           ''description'' \<mapsto> JString ''Description for My First Blog Post'',
           ''pubDate'' \<mapsto> JDate (Some date_2025_01_15)] =
     Inr \<lparr>title = ''My First Blog Post'',
          description = ''Description for My First Blog Post'',
          pubDate = date_2025_01_15,
          updatedDate = None, heroImage = None, tags = None\<rparr>"
  using schema_accepts
    [of "[''title'' \<mapsto> JString ''My First Blog Post'',
          ''description'' \<mapsto> JString ''Description for My First Blog Post'',
          ''pubDate'' \<mapsto> JDate (Some date_2025_01_15)]"
        "\<lparr>title = ''My First Blog Post'',
          description = ''Description for My First Blog Post'',
          pubDate = date_2025_01_15,
          updatedDate = None, heroImage = None, tags = None\<rparr>"]
  by simp

subsection \<open>An entry without a publish date\<close>



lemma find_None_key: "find (\<lambda>m. f m = v) xs = None \<longleftrightarrow> v \<notin> f ` set xs"
  by (auto simp: find_None_iff)

lemma slug_collision_None:
  "slug_collision seen ns = None \<longleftrightarrow>
     distinct (map spec_slug ns) \<and> spec_slug ` set seen \<inter> spec_slug ` set ns = {}"
proof (induction ns arbitrary: seen)
  case Nil
  show ?case by simp
next
  case (Cons n ns)
  show ?case
  proof (cases "find (\<lambda>m. spec_slug m = spec_slug n) seen")
    case None
    then have "spec_slug n \<notin> spec_slug ` set seen" by (simp add: find_None_key)
    with None Cons[of "seen @ [n]"] show ?thesis by auto
  next
    case (Some m)
    then have "spec_slug n \<in> spec_slug ` set seen"
      using find_None_key[of spec_slug "spec_slug n" seen] by auto
    with Some show ?thesis by auto
  qed
qed




lemma read_files_length: "read_files files = Inr raws \<Longrightarrow> length raws = length files"
  by (induction files arbitrary: raws) (auto split: option.splits sum.splits)




lemma validate_entries_slugs:
  "validate_entries raws = Inr posts \<Longrightarrow> map slug posts = map raw_slug raws"
  by (induction raws arbitrary: posts) (auto split: sum.splits)

lemma read_files_slugs:
  "read_files files = Inr raws \<Longrightarrow> map raw_slug raws = map (\<lambda>f. spec_slug (file_name f)) files"
  by (induction files arbitrary: raws) (auto split: option.splits sum.splits)

lemma load_collection_distinct_slugs:
  assumes "load_collection files = Inr posts"
  shows "distinct (map slug posts)"
proof -
  from assms have n: "slug_collision [] (map file_name files) = None"
    by (auto simp: load_collection_def split: option.splits)
  with assms obtain raws where r: "read_files files = Inr raws" "validate_entries raws = Inr posts"
    by (auto simp: load_collection_def split: sum.splits)
  from n have "distinct (map spec_slug (map file_name files))"
    by (simp add: slug_collision_None)
  then show ?thesis
    using validate_entries_slugs[OF r(2)] read_files_slugs[OF r(1)] by (simp add: comp_def)
qed





subsection \<open>Two files with the same slug\<close>



subsection \<open>The Collection after a view was taken\<close>



subsection \<open>The slug of a new post\<close>

lemma longest_Max: "ns \<noteq> [] \<Longrightarrow> longest ns = Some (Max (set ns))"
  by (cases ns) (simp_all add: Max.set_eq_fold [symmetric])

lemma atom_ok_not_alnum:
  "atom_ok (NoneOf [(CHR ''a'', CHR ''z''), (CHR ''0'', CHR ''9'')]) c = (\<not> allowed c)"
  by (simp add: allowed_def)

lemma gsub_not_alnum:
  "gsub re_not_alnum ''-'' bol adj s = replace_disallowed s"
proof (induction s arbitrary: bol adj)
  case Nil
  show ?case by (simp add: re_not_alnum_def replace_disallowed_def)
next
  case (Cons c cs)
  have IH: "\<And>bol adj. gsub (Atom (NoneOf [(CHR ''a'', CHR ''z''), (CHR ''0'', CHR ''9'')])) ''-'' bol adj cs
        = map (\<lambda>c. if allowed c then c else hyphen) cs"
    using Cons.IH by (simp add: re_not_alnum_def replace_disallowed_def)
  show ?case
    unfolding re_not_alnum_def replace_disallowed_def
    by (cases "allowed c") (simp_all add: IH atom_ok_not_alnum del: atom_ok.simps)
qed

lemma match_lens_hyphens:
  "match_lens re_hyphens bol (c # cs) =
     (if c = hyphen then map Suc [0..<Suc (length (takeWhile (\<lambda>x. x = hyphen) cs))] else [])"
proof -
  have "(\<lambda>x. x = hyphen) = atom_ok (Lit hyphen)" by (rule ext) simp
  then show ?thesis
    by (simp add: re_hyphens_def del: upt_Suc)
qed

lemma longest_hyphens:
  "longest (match_lens re_hyphens bol (c # cs)) =
     (if c = hyphen then Some (Suc (length (takeWhile (\<lambda>x. x = hyphen) cs))) else None)"
proof (cases "c = hyphen")
  case True
  let ?k = "length (takeWhile (\<lambda>x. x = hyphen) cs)"
  have m: "match_lens re_hyphens bol (c # cs) = map Suc [0..<Suc ?k]"
    using True by (simp only: match_lens_hyphens refl if_True)
  have mx: "Max (set (map Suc [0..<Suc ?k])) = Suc ?k"
    by (rule Max_eqI) auto
  have l: "longest (map Suc [0..<Suc ?k]) = Some (Max (set (map Suc [0..<Suc ?k])))"
    by (rule longest_Max) simp
  have "longest (map Suc [0..<Suc ?k]) = Some (Suc ?k)"
    unfolding l mx ..
  with m True show ?thesis by simp
next
  case False
  then show ?thesis by (simp add: match_lens_hyphens)
qed

lemma collapse_hyphens_run:
  "collapse_hyphens (hyphen # cs) = hyphen # collapse_hyphens (dropWhile (\<lambda>x. x = hyphen) cs)"
proof (induction cs)
  case Nil
  show ?case by simp
next
  case (Cons d ds)
  show ?case
  proof (cases "d = hyphen")
    case True
    with Cons show ?thesis by simp
  next
    case False
    then show ?thesis by (cases ds) simp_all
  qed
qed

lemma collapse_hyphens_other:
  "c \<noteq> hyphen \<Longrightarrow> collapse_hyphens (c # cs) = c # collapse_hyphens cs"
  by (cases cs) simp_all

lemma gsub_hyphens:
  "gsub re_hyphens ''-'' bol adj s = collapse_hyphens s"
proof (induction "length s" arbitrary: s bol adj rule: less_induct)
  case less
  show ?case
  proof (cases s)
    case Nil
    then show ?thesis by (simp add: re_hyphens_def)
  next
    case (Cons c cs)
    show ?thesis
    proof (cases "c = hyphen")
      case True
      let ?k = "length (takeWhile (\<lambda>x. x = hyphen) cs)"
      have d: "drop ?k cs = dropWhile (\<lambda>x. x = hyphen) cs"
        by (simp add: dropWhile_eq_drop)
      have "length (dropWhile (\<lambda>x. x = hyphen) cs) < length s"
        using Cons by (simp add: le_imp_less_Suc length_dropWhile_le)
      from less[OF this] have
        "gsub re_hyphens ''-'' False True (dropWhile (\<lambda>x. x = hyphen) cs) =
         collapse_hyphens (dropWhile (\<lambda>x. x = hyphen) cs)" .
      then show ?thesis
        using True Cons d by (simp add: longest_hyphens collapse_hyphens_run)
    next
      case False
      have "length cs < length s" using Cons by simp
      from less[OF this] have "gsub re_hyphens ''-'' False False cs = collapse_hyphens cs" .
      then show ?thesis
        using False Cons by (simp add: longest_hyphens collapse_hyphens_other)
    qed
  qed
qed

lemma longest_edge:
  "longest (match_lens re_edge_hyphen bol (c # cs)) =
     (if c = hyphen \<and> (bol \<or> cs = []) then Some 1 else None)"
  by (simp add: re_edge_hyphen_def)

lemma gsub_edge_Nil: "gsub re_edge_hyphen [] bol adj [] = []"
  by (simp add: re_edge_hyphen_def)

lemma gsub_edge_inner:
  "gsub re_edge_hyphen [] False adj s = (if s \<noteq> [] \<and> last s = hyphen then butlast s else s)"
proof (induction s arbitrary: adj)
  case Nil
  show ?case by (simp add: gsub_edge_Nil)
next
  case (Cons c cs)
  show ?case
    by (cases "cs = []") (simp_all add: longest_edge Cons.IH gsub_edge_Nil)
qed

lemma gsub_edge_first:
  "gsub re_edge_hyphen [] True adj s =
     (case s of
        [] \<Rightarrow> []
      | c # cs \<Rightarrow>
          if c = hyphen then (if cs \<noteq> [] \<and> last cs = hyphen then butlast cs else cs)
          else (if last (c # cs) = hyphen then butlast (c # cs) else c # cs))"
proof (cases s)
  case Nil
  then show ?thesis by (simp add: gsub_edge_Nil)
next
  case (Cons c cs)
  then show ?thesis
    by (cases "cs = []") (simp_all add: longest_edge gsub_edge_inner gsub_edge_Nil)
qed

lemma to_lower_NL: "to_lower c = NL \<longleftrightarrow> c = NL"
proof
  assume a: "to_lower c = NL"
  show "c = NL"
  proof (cases "65 \<le> (of_char c :: nat) \<and> (of_char c :: nat) \<le> 90")
    case True
    then have "of_char (to_lower c) = ((of_char c + 32) mod 256 :: nat)"
      by (simp add: to_lower_def)
    with a True show ?thesis by simp
  next
    case False
    with a show ?thesis by (simp add: to_lower_def)
  qed
next
  assume "c = NL" then show "to_lower c = NL" by (simp add: to_lower_def)
qed

lemma to_lower_fix: "allowed c \<or> c = hyphen \<Longrightarrow> to_lower c = c"
  by (auto simp: to_lower_def allowed_def in_range_def)

lemma allowed_NL: "\<not> allowed NL" by (simp add: allowed_def in_range_def)
lemma allowed_hyphen: "\<not> allowed hyphen" by (simp add: allowed_def in_range_def)
lemma allowed_dot: "\<not> allowed (CHR ''.'')" by (simp add: allowed_def in_range_def)

lemma per_line_single:
  "NL \<notin> set t \<Longrightarrow> per_line f acc (t @ [NL]) = f (acc @ t) @ [NL]"
  by (induction t arbitrary: acc) auto

lemma sed_s_single:
  "NL \<notin> set t \<Longrightarrow> sed_s r rep (t @ [NL]) = gsub r rep True False t @ [NL]"
  by (simp add: sed_s_def per_line_single)

lemma NL_replace_disallowed: "NL \<notin> set (replace_disallowed s)"
  by (auto simp: replace_disallowed_def allowed_NL)

lemma set_collapse_hyphens: "set (collapse_hyphens s) \<subseteq> set s"
  by (induction s rule: collapse_hyphens.induct) auto

lemma collapse_hyphens_hd: "\<exists>xs. collapse_hyphens (d # cs) = d # xs"
  by (cases "d = hyphen") (simp_all add: collapse_hyphens_run collapse_hyphens_other)

lemma not_adjacent_collapse: "\<not> adjacent_hyphens (collapse_hyphens s)"
proof (induction s rule: collapse_hyphens.induct)
  case (1 c d cs)
  show ?case
  proof (cases "c = hyphen \<and> d = hyphen")
    case True
    with 1 show ?thesis by simp
  next
    case False
    then have e: "collapse_hyphens (c # d # cs) = c # collapse_hyphens (d # cs)" by simp
    from 1 False have n: "\<not> adjacent_hyphens (collapse_hyphens (d # cs))" by simp
    obtain xs where x: "collapse_hyphens (d # cs) = d # xs"
      using collapse_hyphens_hd by blast
    show ?thesis using e n x False by auto
  qed
qed simp_all

lemma adjacent_tl: "\<not> adjacent_hyphens (c # cs) \<Longrightarrow> \<not> adjacent_hyphens cs"
  by (cases cs) auto

lemma adjacent_snoc:
  "adjacent_hyphens (w @ [hyphen]) \<longleftrightarrow> adjacent_hyphens w \<or> (w \<noteq> [] \<and> last w = hyphen)"
  by (induction w rule: adjacent_hyphens.induct) auto

lemma adjacent_snoc_other:
  "c \<noteq> hyphen \<Longrightarrow> adjacent_hyphens (w @ [c]) \<longleftrightarrow> adjacent_hyphens w"
  by (induction w rule: adjacent_hyphens.induct) auto

lemma adjacent_butlast: "\<not> adjacent_hyphens s \<Longrightarrow> \<not> adjacent_hyphens (butlast s)"
proof (cases s rule: rev_cases)
  case Nil
  then show ?thesis by simp
next
  case (snoc w c)
  assume "\<not> adjacent_hyphens s"
  with snoc show ?thesis
    by (cases "c = hyphen") (simp_all add: adjacent_snoc adjacent_snoc_other)
qed

lemma drop_trailing_hyphens:
  assumes "\<not> adjacent_hyphens v"
  shows "rev (dropWhile (\<lambda>c. c = hyphen) (rev v)) =
         (if v \<noteq> [] \<and> last v = hyphen then butlast v else v)"
proof (cases v rule: rev_cases)
  case Nil
  then show ?thesis by simp
next
  case (snoc w c)
  show ?thesis
  proof (cases "c = hyphen")
    case True
    with assms snoc have "w = [] \<or> last w \<noteq> hyphen"
      by (auto simp: adjacent_snoc)
    then have "dropWhile (\<lambda>c. c = hyphen) (rev w) = rev w"
      by (cases w rule: rev_cases) auto
    with True snoc show ?thesis by simp
  next
    case False
    with snoc show ?thesis by simp
  qed
qed

lemma drop_leading_hyphens:
  assumes "\<not> adjacent_hyphens u"
  shows "dropWhile (\<lambda>c. c = hyphen) u =
         (case u of [] \<Rightarrow> [] | c # cs \<Rightarrow> if c = hyphen then cs else u)"
proof (cases u)
  case Nil
  then show ?thesis by simp
next
  case (Cons c cs)
  show ?thesis
  proof (cases "c = hyphen")
    case True
    with assms Cons have "cs = [] \<or> hd cs \<noteq> hyphen"
      by (cases cs) auto
    then have "dropWhile (\<lambda>c. c = hyphen) cs = cs"
      by (cases cs) auto
    with True Cons show ?thesis by simp
  next
    case False
    with Cons show ?thesis by simp
  qed
qed

declare gsub.simps [simp del]

lemma gsub_edge_trim:
  assumes "\<not> adjacent_hyphens u"
  shows "gsub re_edge_hyphen [] True False u = trim_hyphens u"
proof (cases u)
  case Nil
  then show ?thesis by (simp add: gsub_edge_Nil trim_hyphens_def)
next
  case (Cons c cs)
  show ?thesis
  proof (cases "c = hyphen")
    case True
    have n: "\<not> adjacent_hyphens cs" using assms Cons by (rule_tac adjacent_tl) simp
    have "dropWhile (\<lambda>c. c = hyphen) u = cs"
      using drop_leading_hyphens[OF assms] Cons True by simp
    then show ?thesis
      using True Cons drop_trailing_hyphens[OF n]
      by (simp add: gsub_edge_first trim_hyphens_def)
  next
    case False
    have "dropWhile (\<lambda>c. c = hyphen) u = u"
      using Cons False by simp
    then show ?thesis
      using False Cons drop_trailing_hyphens[OF assms]
      by (simp add: gsub_edge_first trim_hyphens_def)
  qed
qed

lemma set_gsub_edge: "set (gsub re_edge_hyphen [] True False u) \<subseteq> set u"
  unfolding gsub_edge_first
  by (cases u) (auto dest: in_set_butlastD)

lemma command_subst_line: "NL \<notin> set u \<Longrightarrow> command_subst (u @ [NL]) = u"
proof -
  assume "NL \<notin> set u"
  then have "dropWhile (\<lambda>c. c = NL) (rev u) = rev u"
    by (cases u rule: rev_cases) auto
  then show ?thesis by (simp add: command_subst_def)
qed

lemma new_post_slug_normalize:
  assumes "NL \<notin> set t" and "\<not> echo_option t"
  shows "new_post_slug t = slug_rule t"
proof -
  let ?l = "map to_lower t"
  let ?r = "replace_disallowed ?l"
  let ?c = "collapse_hyphens ?r"
  have e: "echo t = t @ [NL]" using assms(2) by (simp add: echo_def)
  have l: "tr_upper_lower (t @ [NL]) = ?l @ [NL]"
    by (simp add: tr_upper_lower_def to_lower_NL)
  have nl: "NL \<notin> set ?l"
  proof
    assume "NL \<in> set ?l"
    then obtain x where "x \<in> set t" "to_lower x = NL" by auto
    with assms(1) show False by (simp add: to_lower_NL)
  qed
  have s1: "sed_s re_not_alnum ''-'' (?l @ [NL]) = ?r @ [NL]"
    using nl by (simp add: sed_s_single gsub_not_alnum)
  have nr: "NL \<notin> set ?r" by (rule NL_replace_disallowed)
  have s2: "sed_s re_hyphens ''-'' (?r @ [NL]) = ?c @ [NL]"
    using nr by (simp add: sed_s_single gsub_hyphens)
  have nc: "NL \<notin> set ?c" using nr set_collapse_hyphens by blast
  have s3: "sed_s re_edge_hyphen [] (?c @ [NL]) = trim_hyphens ?c @ [NL]"
    using nc by (simp add: sed_s_single gsub_edge_trim not_adjacent_collapse)
  have "set (trim_hyphens ?c) \<subseteq> set ?c"
    using set_gsub_edge[of ?c] by (simp add: gsub_edge_trim not_adjacent_collapse)
  with nc have nt: "NL \<notin> set (trim_hyphens ?c)" by blast
  show ?thesis
    unfolding new_post_slug_def slug_rule_def e l s1 s2 s3
    using nt by (rule command_subst_line)
qed

lemma strip_extension_md: "strip_extension (s @ ''.md'') = s"
  by (simp add: strip_extension_def)

lemma allowed_slash: "\<not> allowed (CHR ''/'')" by (simp add: allowed_def in_range_def)

lemma basename_new_post_file:
  assumes "CHR ''/'' \<notin> set s"
  shows "basename (new_post_file s) = s @ ''.md''"
proof -
  from assms have "takeWhile (\<lambda>c. c \<noteq> CHR ''/'') (rev s @ ''/golb/tnetnoc/crs'') = rev s"
    by (simp add: takeWhile_append)
  then show ?thesis
    by (simp add: basename_def new_post_file_def)
qed

lemma all_replace_disallowed:
  "list_all (\<lambda>c. allowed c \<or> c = hyphen) (replace_disallowed s)"
  by (induction s) (simp_all add: replace_disallowed_def)

lemma set_trim_hyphens: "set (trim_hyphens s) \<subseteq> set s"
proof -
  have "set (trim_hyphens s) \<subseteq> set (dropWhile (\<lambda>c. c = hyphen) s)"
    unfolding trim_hyphens_def using set_dropWhileD by fastforce
  also have "\<dots> \<subseteq> set s" using set_dropWhileD by fastforce
  finally show ?thesis .
qed

lemma trim_hyphens_ends:
  "trim_hyphens s = [] \<or> (hd (trim_hyphens s) \<noteq> hyphen \<and> last (trim_hyphens s) \<noteq> hyphen)"
proof (cases "trim_hyphens s = []")
  case True
  then show ?thesis by simp
next
  case False
  let ?w = "dropWhile (\<lambda>c. c = hyphen) s"
  let ?d = "dropWhile (\<lambda>c. c = hyphen) (rev ?w)"
  from False have d: "?d \<noteq> []" by (simp add: trim_hyphens_def)
  then have "hd ?d \<noteq> hyphen" using hd_dropWhile[of "\<lambda>c. c = hyphen" "rev ?w"] by simp
  then have l: "last (trim_hyphens s) \<noteq> hyphen"
    using d by (simp add: trim_hyphens_def last_rev)
  have "?d = drop (length (takeWhile (\<lambda>c. c = hyphen) (rev ?w))) (rev ?w)"
    by (simp add: dropWhile_eq_drop)
  then obtain k where "trim_hyphens s = take k ?w"
    by (metis rev_drop rev_rev_ident length_rev trim_hyphens_def)
  with False have "hd (trim_hyphens s) = hd ?w" "?w \<noteq> []"
    by (cases k; cases ?w; simp)+
  moreover have "hd ?w \<noteq> hyphen" if "?w \<noteq> []"
    using that hd_dropWhile[of "\<lambda>c. c = hyphen" s] by simp
  ultimately show ?thesis using l by simp
qed

lemma not_adjacent_trim:
  assumes "\<not> adjacent_hyphens u"
  shows "\<not> adjacent_hyphens (trim_hyphens u)"
proof -
  let ?w = "dropWhile (\<lambda>c. c = hyphen) u"
  have w: "\<not> adjacent_hyphens ?w"
    using assms drop_leading_hyphens[OF assms] adjacent_tl by (cases u) auto
  show ?thesis
    unfolding trim_hyphens_def drop_trailing_hyphens[OF w]
    using w adjacent_butlast by simp
qed

lemma slug_shaped_rule: "slug_shaped (slug_rule t)"
proof -
  let ?c = "collapse_hyphens (replace_disallowed (map to_lower t))"
  have "set (trim_hyphens ?c) \<subseteq> set (replace_disallowed (map to_lower t))"
    using set_trim_hyphens set_collapse_hyphens by blast
  then have "list_all (\<lambda>c. allowed c \<or> c = hyphen) (trim_hyphens ?c)"
    using all_replace_disallowed[of "map to_lower t"] by (auto simp: list_all_iff)
  moreover have "\<not> adjacent_hyphens (trim_hyphens ?c)"
    by (rule not_adjacent_trim) (rule not_adjacent_collapse)
  ultimately show ?thesis
    using trim_hyphens_ends[of ?c] by (simp add: slug_shaped_def slug_rule_def)
qed

lemma collapse_hyphens_fix: "\<not> adjacent_hyphens s \<Longrightarrow> collapse_hyphens s = s"
  by (induction s rule: collapse_hyphens.induct) auto

lemma dropWhile_rev_last:
  "s \<noteq> [] \<Longrightarrow> last s \<noteq> hyphen \<Longrightarrow> dropWhile (\<lambda>c. c = hyphen) (rev s) = rev s"
  by (cases s rule: rev_cases) auto

lemma trim_hyphens_fix:
  assumes "s = [] \<or> (hd s \<noteq> hyphen \<and> last s \<noteq> hyphen)"
  shows "trim_hyphens s = s"
proof (cases "s = []")
  case True
  then show ?thesis by (simp add: trim_hyphens_def)
next
  case False
  with assms have h: "hd s \<noteq> hyphen" and l: "last s \<noteq> hyphen" by auto
  have a: "dropWhile (\<lambda>c. c = hyphen) s = s"
    using False h by (cases s) auto
  have b: "dropWhile (\<lambda>c. c = hyphen) (rev s) = rev s"
    by (rule dropWhile_rev_last [OF False l])
  show ?thesis by (simp add: trim_hyphens_def a b)
qed

lemma slug_rule_fix:
  assumes "slug_shaped s"
  shows "slug_rule s = s"
proof -
  from assms have a: "\<forall>c\<in>set s. allowed c \<or> c = hyphen"
    by (simp add: slug_shaped_def list_all_iff)
  then have l: "map to_lower s = s"
    by (intro map_idI) (simp add: to_lower_fix)
  from a have r: "replace_disallowed s = s"
    unfolding replace_disallowed_def by (intro map_idI) auto
  from assms have c: "collapse_hyphens s = s"
    by (simp add: slug_shaped_def collapse_hyphens_fix)
  from assms have t: "trim_hyphens s = s"
    by (intro trim_hyphens_fix) (simp add: slug_shaped_def)
  show ?thesis by (simp add: slug_rule_def l r c t)
qed

lemma slug_round_trip:
  assumes "NL \<notin> set t" and "\<not> echo_option t"
  shows "spec_slug (basename (new_post_file (new_post_slug t))) = new_post_slug t"
proof -
  have s: "slug_shaped (new_post_slug t)"
    using assms by (simp add: new_post_slug_normalize slug_shaped_rule)
  then have "CHR ''/'' \<notin> set (new_post_slug t)"
    using allowed_slash by (auto simp: slug_shaped_def list_all_iff)
  then have "basename (new_post_file (new_post_slug t)) = new_post_slug t @ ''.md''"
    by (rule basename_new_post_file)
  then show ?thesis
    using s by (simp add: spec_slug_def strip_extension_md slug_rule_fix)
qed

text \<open>
  C6 fails on the script for a title of more than one line, and for a title \<^verbatim>\<open>echo\<close>
  takes for an option. \<^verbatim>\<open>sed\<close> works line by line and never sees the newline, so the
  title \<^verbatim>\<open>a\<close>, newline, \<^verbatim>\<open>b\<close> keeps its newline in the slug and in the name of the
  file, where the rule gives \<^verbatim>\<open>a-b\<close>; and for the title \<^verbatim>\<open>-n\<close> nothing is printed, so
  the slug is empty, where the rule gives \<^verbatim>\<open>n\<close>. For every other title the script
  follows the rule (\<open>new_post_slug_normalize\<close>, \<open>slug_round_trip\<close>).
\<close>

theorem new_post_slug_newline:
  "new_post_slug (''a'' @ [NL] @ ''b'') = ''a'' @ [NL] @ ''b'' \<and>
   new_post_file (new_post_slug (''a'' @ [NL] @ ''b'')) =
     ''src/content/blog/a'' @ [NL] @ ''b.md'' \<and>
   spec_slug (basename (new_post_file (new_post_slug (''a'' @ [NL] @ ''b'')))) = ''a-b'' \<and>
   new_post_slug ''-n'' = [] \<and>
   slug_rule ''-n'' = ''n''"
  by code_simp

end
